theory Spec2Isabelle
  imports Complex_Main "HOL-Library.Multiset"
begin

section \<open>JavaScript values\<close>

text \<open>
  A parameter with a default value, or an expression \<open>a ?? d\<close>: an absent value
  (\<open>undefined\<close>) is \<open>None\<close>.
\<close>

definition orElse :: "'a option \<Rightarrow> 'a \<Rightarrow> 'a" where
  "orElse p d = (case p of None \<Rightarrow> d | Some v \<Rightarrow> v)"

subsection \<open>Strings\<close>





text \<open>
  The characters matched by \<open>\s\<close> and removed by \<open>trim\<close>: tab, line feed, vertical
  tab, form feed, carriage return, space and no-break space (the white space and line
  terminator code units below 256).
\<close>

definition isWhiteSpace :: "char \<Rightarrow> bool" where
  "isWhiteSpace c = (of_char c \<in> {9, 10, 11, 12, 13, 32, 160 :: nat})"




text \<open>
  \<open>s.split(/\s+/)\<close>: the pieces of \<open>s\<close> between maximal runs of white space. A
  string that starts or ends with white space has an empty first or last piece, and
  the empty string has the single piece \<open>[]\<close>, the empty string.
\<close>

function split_whitespace :: "string \<Rightarrow> string list" where
  "split_whitespace s =
     (let word = takeWhile (\<lambda>c. \<not> isWhiteSpace c) s;
          rest = dropWhile (\<lambda>c. \<not> isWhiteSpace c) s
      in if rest = [] then [word]
         else word # split_whitespace (dropWhile isWhiteSpace rest))"
  by pat_completeness auto
termination
proof (relation "measure length")
  show "wf (measure length)" by simp
next
  fix s :: string and word rest
  assume rest: "rest = dropWhile (\<lambda>c. \<not> isWhiteSpace c) s" and ne: "rest \<noteq> []"
  from ne obtain c cs where r: "rest = c # cs" by (cases rest) auto
  have "dropWhile (\<lambda>c. \<not> isWhiteSpace c) s \<noteq> []"
    using ne rest by simp
  then have "\<not> \<not> isWhiteSpace (hd (dropWhile (\<lambda>c. \<not> isWhiteSpace c) s))"
    by (rule hd_dropWhile)
  then have "isWhiteSpace c"
    using rest r by (metis list.sel(1))
  then have "length (dropWhile isWhiteSpace rest) \<le> length cs"
    by (simp add: r length_dropWhile_le)
  moreover have "length rest \<le> length s"
    by (simp add: rest length_dropWhile_le)
  ultimately show "(dropWhile isWhiteSpace rest, s) \<in> measure length"
    by (simp add: r)
qed

declare split_whitespace.simps [simp del]

subsection \<open>Arrays\<close>

text \<open>
  \<open>Array.prototype.splice(start, deleteCount, ...items)\<close> on integer arguments: the
  start index is taken relative to the end when negative and clamped to the array, the
  delete count is clamped to what is left. The result is the removed elements and the
  array after the call.
\<close>

definition relativeStart :: "int \<Rightarrow> nat \<Rightarrow> nat" where
  "relativeStart start len =
     (if start < 0 then nat (max (int len + start) 0) else min (nat start) len)"

definition splice :: "int \<Rightarrow> nat \<Rightarrow> 'a list \<Rightarrow> 'a list \<Rightarrow> 'a list \<times> 'a list" where
  "splice start deleteCount items xs =
     (let actualStart = relativeStart start (length xs);
          actualDeleteCount = min deleteCount (length xs - actualStart)
      in (take actualDeleteCount (drop actualStart xs),
          take actualStart xs @ items @ drop (actualStart + actualDeleteCount) xs))"

section \<open>The UI store of \<open>kit/Theme/UI.tsx\<close>\<close>

text \<open>
  \<open>StateUI\<close> is the state of the store. The types \<open>Mode\<close> and \<open>Theme\<close> are
  declared in \<open>themeUtils\<close>; the reducer only copies values of these types, so they
  are type parameters here.
\<close>

record ('m, 't) StateUI =
  chromeCollapsed :: bool
  isPageHidden :: bool
  mode :: 'm
  showChrome :: bool
  showSpinner :: bool
  theme :: 't

text \<open>\<open>initUI\<close>, with \<open>Mode.System\<close> and the empty theme object passed in.\<close>

definition initUI :: "'m \<Rightarrow> 't \<Rightarrow> ('m, 't) StateUI" where
  "initUI modeSystem emptyTheme =
     \<lparr> chromeCollapsed = False, isPageHidden = False, mode = modeSystem,
       showChrome = True, showSpinner = False, theme = emptyTheme \<rparr>"

datatype ('m, 't) ActionUI =
    HideUIChrome
  | HideUISpinner
  | SetMode 'm
  | SetPageVisibility bool
  | SetTheme 't
  | ShowUIChrome
  | ShowUISpinner

text \<open>
  \<open>Partial<StateUI>\<close>: every field may be absent. \<open>reducerUI\<close> returns such an
  object or nothing (\<open>void\<close>), which is \<open>None\<close>.
\<close>

record ('m, 't) PartialStateUI =
  p_chromeCollapsed :: "bool option"
  p_isPageHidden :: "bool option"
  p_mode :: "'m option"
  p_showChrome :: "bool option"
  p_showSpinner :: "bool option"
  p_theme :: "'t option"

definition emptyPartial :: "('m, 't) PartialStateUI" where
  "emptyPartial =
     \<lparr> p_chromeCollapsed = None, p_isPageHidden = None, p_mode = None,
       p_showChrome = None, p_showSpinner = None, p_theme = None \<rparr>"

fun reducerUI :: "('m, 't) StateUI \<Rightarrow> ('m, 't) ActionUI \<Rightarrow> ('m, 't) PartialStateUI option" where
  "reducerUI state HideUIChrome =
     (if \<not> showChrome state then None else Some (emptyPartial\<lparr>p_showChrome := Some False\<rparr>))"
| "reducerUI state HideUISpinner =
     (if \<not> showSpinner state then None else Some (emptyPartial\<lparr>p_showSpinner := Some False\<rparr>))"
| "reducerUI state (SetMode v) = Some (emptyPartial\<lparr>p_mode := Some v\<rparr>)"
| "reducerUI state (SetPageVisibility v) = Some (emptyPartial\<lparr>p_isPageHidden := Some v\<rparr>)"
| "reducerUI state (SetTheme v) = Some (emptyPartial\<lparr>p_theme := Some v\<rparr>)"
| "reducerUI state ShowUIChrome =
     (if showChrome state then None else Some (emptyPartial\<lparr>p_showChrome := Some True\<rparr>))"
| "reducerUI state ShowUISpinner =
     (if showSpinner state then None else Some (emptyPartial\<lparr>p_showSpinner := Some True\<rparr>))"

text \<open>
  The object spread \<open>{ ...state, ...newState }\<close>: the fields present in \<open>newState\<close>
  replace those of \<open>state\<close>; spreading \<open>undefined\<close> adds nothing.
\<close>

definition spread :: "('m, 't) StateUI \<Rightarrow> ('m, 't) PartialStateUI option \<Rightarrow> ('m, 't) StateUI" where
  "spread state newState =
     (case newState of
        None \<Rightarrow> state
      | Some p \<Rightarrow>
          \<lparr> chromeCollapsed = orElse (p_chromeCollapsed p) (chromeCollapsed state),
            isPageHidden = orElse (p_isPageHidden p) (isPageHidden state),
            mode = orElse (p_mode p) (mode state),
            showChrome = orElse (p_showChrome p) (showChrome state),
            showSpinner = orElse (p_showSpinner p) (showSpinner state),
            theme = orElse (p_theme p) (theme state) \<rparr>)"

definition reducer :: "('m, 't) StateUI \<Rightarrow> ('m, 't) ActionUI \<Rightarrow> ('m, 't) StateUI" where
  "reducer state action = spread state (reducerUI state action)"

section \<open>Theme propagation in \<open>kit/Theme/UI.tsx\<close>\<close>






section \<open>\<open>getInitials\<close> of \<open>kit/Avatar.tsx\<close>\<close>



section \<open>\<open>onColumnMoved\<close> of the data grid\<close>




section \<open>The split pane (\<open>kit/SplitPane\<close>)\<close>

text \<open>
  Pixel values are real numbers: the arithmetic of the component is exact here, and
  \<open>NaN\<close> and the infinities are left out. \<open>Math.round v\<close> is \<open>round v\<close>, the
  integer \<open>\<lfloor>v + 1/2\<rfloor>\<close>. The callback \<open>onChange\<close> is known by its identity only (a
  number), which is what \<open>useMemo\<close> compares.
\<close>

datatype Pane = Left | Right

record PaneWidths =
  left :: real
  right :: real

record Props =
  initialWidth :: real
  minimumWidths :: PaneWidths
  onChange :: "nat option"
  hidePane :: "Pane option"

text \<open>The properties when the caller passes none: the defaults of the destructuring.\<close>

definition defaultProps :: Props where
  "defaultProps =
     \<lparr> initialWidth = 400, minimumWidths = \<lparr> left = 200, right = 200 \<rparr>,
       onChange = None, hidePane = None \<rparr>"

text \<open>
  Modelled from the spec: the hook \<open>useResize\<close> (\<open>kit/internal/useResize\<close>) is not
  among the sources. It reports the offset and the width of the container, and before
  the first measurement the container counts as zero-sized.
\<close>

record Bounds =
  size_x :: real
  size_width :: real

definition zeroSize :: Bounds where
  "zeroSize = \<lparr> size_x = 0, size_width = 0 \<rparr>"

text \<open>
  Modelled from the spec: the function \<open>throttle\<close> of the package
  \<open>throttle-debounce\<close> is not among the sources. The pane builds it with the delay
  8 and the option \<open>noTrailing\<close>, which makes it a leading-edge throttle: a call
  runs the callback at once when the callback never ran or ran more than \<open>delay\<close>
  milliseconds ago, and is dropped otherwise. No call is deferred, so the state is
  the time of the last run only, and \<open>cancel\<close>, which discards a deferred call,
  finds none to discard. Time is the clock of the page in milliseconds.
\<close>

record Throttle =
  delay :: nat
  callback :: nat
  lastExec :: "nat option"

type_synonym Call = "nat \<times> real"

definition throttle :: "nat \<Rightarrow> nat \<Rightarrow> Throttle" where
  "throttle d f = \<lparr> delay = d, callback = f, lastExec = None \<rparr>"

definition throttle_call :: "nat \<Rightarrow> real \<Rightarrow> Throttle \<Rightarrow> Throttle \<times> Call list" where
  "throttle_call now arg th =
     (case lastExec th of
        None \<Rightarrow> (th\<lparr>lastExec := Some now\<rparr>, [(callback th, arg)])
      | Some t \<Rightarrow>
          if delay th < now - t then (th\<lparr>lastExec := Some now\<rparr>, [(callback th, arg)])
          else (th, []))"

definition throttle_cancel :: "Throttle \<Rightarrow> Throttle" where
  "throttle_cancel th = th"

text \<open>
  The state of a mounted \<open>SplitPane\<close>: the properties of the last render, the two
  \<open>useState\<close> cells, the size reported by \<open>useResize\<close> and the memoised throttled
  callback.
\<close>

record SplitPane =
  props :: Props
  isDragging :: bool
  width :: real
  size' :: Bounds
  throttledOnChange :: "Throttle option"

definition useMemo_throttledOnChange :: "nat option \<Rightarrow> Throttle option" where
  "useMemo_throttledOnChange cb = (case cb of None \<Rightarrow> None | Some f \<Rightarrow> Some (throttle 8 f))"

definition mount :: "Props \<Rightarrow> SplitPane" where
  "mount p =
     \<lparr> props = p, isDragging = False, width = initialWidth p, size' = zeroSize,
       throttledOnChange = useMemo_throttledOnChange (onChange p) \<rparr>"

subsection \<open>What is rendered\<close>

datatype Display = DisplayNone | DisplayInitial

datatype CssWidth = Px real | Percent100

record View =
  showRightPane :: bool
  leftPaneDisplay :: Display
  leftPaneWidth :: CssWidth
  handleDisplay :: Display

definition hideHandle :: "Props \<Rightarrow> bool" where
  "hideHandle p = (hidePane p = Some Left \<or> hidePane p = Some Right)"

definition render :: "SplitPane \<Rightarrow> View" where
  "render s =
     \<lparr> showRightPane = (hidePane (props s) \<noteq> Some Right),
       leftPaneDisplay = (if hidePane (props s) = Some Left then DisplayNone else DisplayInitial),
       leftPaneWidth = (if hidePane (props s) \<noteq> Some Right then Px (width s) else Percent100),
       handleDisplay = (if hideHandle (props s) then DisplayNone else DisplayInitial) \<rparr>"

subsection \<open>Events and handlers\<close>

text \<open>
  What can happen to a mounted pane: a press of a mouse button at the place of the
  handle, a move or a release anywhere in the document, a render with new properties,
  and a new size from \<open>useResize\<close>. Each handler returns the new state and the calls
  of \<open>onChange\<close> it made, each with the identity of the callback and the width
  passed. The render and the effects that follow an event are taken to be complete
  before the next event arrives, so a handler reads the state and the properties of
  the last render.
\<close>

datatype Event =
    MouseDownAtHandle nat
  | MouseMove real
  | MouseUp nat
  | Rerender Props
  | Resize Bounds

definition handleDragStart :: "nat \<Rightarrow> SplitPane \<Rightarrow> SplitPane \<times> Call list" where
  "handleDragStart button s =
     (if button \<noteq> 0 then (s, []) else (s\<lparr>isDragging := True\<rparr>, []))"

definition newWidth :: "PaneWidths \<Rightarrow> Bounds \<Rightarrow> real \<Rightarrow> real" where
  "newWidth mw sz clientX =
     (let pointerRelativeXpos = clientX - size_x sz
      in real_of_int (round (min (max (left mw) (pointerRelativeXpos - 8))
                                 (size_width sz - right mw))))"

definition handleDrag :: "nat \<Rightarrow> real \<Rightarrow> SplitPane \<Rightarrow> SplitPane \<times> Call list" where
  "handleDrag now clientX s =
     (let w = newWidth (minimumWidths (props s)) (size' s) clientX;
          s1 = s\<lparr>width := w\<rparr>
      in case throttledOnChange s of
           None \<Rightarrow> (s1, [])
         | Some th \<Rightarrow>
             (let (th', cs) = throttle_call now w th
              in (s1\<lparr>throttledOnChange := Some th'\<rparr>, cs)))"

definition handleDragStop :: "nat \<Rightarrow> SplitPane \<Rightarrow> SplitPane \<times> Call list" where
  "handleDragStop button s =
     (if button \<noteq> 0 then (s, [])
      else (s\<lparr>isDragging := False,
               throttledOnChange := map_option throttle_cancel (throttledOnChange s)\<rparr>,
            case onChange (props s) of None \<Rightarrow> [] | Some f \<Rightarrow> [(f, width s)]))"

text \<open>
  A render with new properties runs the effect that copies \<open>initialWidth\<close> into the
  width when \<open>initialWidth\<close> changed, and \<open>useMemo\<close> builds a new throttled callback
  when \<open>onChange\<close> changed.
\<close>

definition rerender :: "Props \<Rightarrow> SplitPane \<Rightarrow> SplitPane" where
  "rerender p s =
     s\<lparr>props := p,
       width := (if initialWidth p \<noteq> initialWidth (props s) then initialWidth p else width s),
       throttledOnChange :=
         (if onChange p \<noteq> onChange (props s) then useMemo_throttledOnChange (onChange p)
          else throttledOnChange s)\<rparr>"

text \<open>
  The listener for \<open>mousedown\<close> is on the handle: an element with
  \<open>display: none\<close> has no box, so a press at its place does not reach it. The
  listeners for \<open>mousemove\<close> and \<open>mouseup\<close> are on the document and are attached
  only while \<open>isDragging\<close> holds.
\<close>

fun step :: "nat \<Rightarrow> Event \<Rightarrow> SplitPane \<Rightarrow> SplitPane \<times> Call list" where
  "step now (MouseDownAtHandle button) s =
     (if handleDisplay (render s) = DisplayNone then (s, []) else handleDragStart button s)"
| "step now (MouseMove clientX) s =
     (if isDragging s then handleDrag now clientX s else (s, []))"
| "step now (MouseUp button) s =
     (if isDragging s then handleDragStop button s else (s, []))"
| "step now (Rerender p) s = (rerender p s, [])"
| "step now (Resize sz) s = (s\<lparr>size' := sz\<rparr>, [])"

text \<open>
  A run of timed events: \<open>run\<close> gives, for each event, the calls of \<open>onChange\<close>
  it caused, and \<open>exec\<close> gives the state at the end.
\<close>

fun run :: "SplitPane \<Rightarrow> (nat \<times> Event) list \<Rightarrow> (nat \<times> Event \<times> Call list) list" where
  "run s [] = []"
| "run s ((now, e) # evs) =
     (let (s', cs) = step now e s in (now, e, cs) # run s' evs)"

fun exec :: "SplitPane \<Rightarrow> (nat \<times> Event) list \<Rightarrow> SplitPane" where
  "exec s [] = s"
| "exec s ((now, e) # evs) = exec (fst (step now e s)) evs"

inductive reachable :: "SplitPane \<Rightarrow> bool" where
  reachable_mount: "reachable (mount p)"
| reachable_step: "reachable s \<Longrightarrow> reachable (fst (step now e s))"

section \<open>Vocabulary of the properties\<close>













text \<open>Clamping a value to the interval from \<open>lo\<close> to \<open>hi\<close>.\<close>

definition clampToInterval :: "real \<Rightarrow> real \<Rightarrow> real \<Rightarrow> real" where
  "clampToInterval lo hi v = (if v < lo then lo else if hi < v then hi else v)"

text \<open>The invariant that the data model states for the width of the left pane.\<close>

definition paneInvariant :: "SplitPane \<Rightarrow> bool" where
  "paneInvariant s =
     (left (minimumWidths (props s)) \<le> width s
      \<and> width s \<le> size_width (size' s) - right (minimumWidths (props s)))"

fun isMouseEvent :: "Event \<Rightarrow> bool" where
  "isMouseEvent (MouseDownAtHandle b) = True"
| "isMouseEvent (MouseMove cx) = True"
| "isMouseEvent (MouseUp b) = True"
| "isMouseEvent e = False"

fun isMouseMove :: "Event \<Rightarrow> bool" where
  "isMouseMove (MouseMove cx) = True"
| "isMouseMove e = False"

text \<open>An event keeps the callback \<open>f\<close> unless it is a render that passes another one.\<close>

fun keepsOnChange :: "nat option \<Rightarrow> Event \<Rightarrow> bool" where
  "keepsOnChange f (Rerender p) = (onChange p = f)"
| "keepsOnChange f e = True"

text \<open>The times of the calls of \<open>onChange\<close> made by pointer moves, in a run.\<close>

definition moveCallTimes :: "(nat \<times> Event \<times> Call list) list \<Rightarrow> nat list" where
  "moveCallTimes tr =
     concat (map (\<lambda>(now, e, cs). if isMouseMove e then map (\<lambda>c. now) cs else []) tr)"

text \<open>
  The throttled callback of a state is the one \<open>useMemo\<close> builds for the current
  \<open>onChange\<close>; \<open>lastOf\<close> is the time it last ran the callback.
\<close>

definition wellFormed :: "SplitPane \<Rightarrow> bool" where
  "wellFormed s =
     (case throttledOnChange s of
        None \<Rightarrow> onChange (props s) = None
      | Some th \<Rightarrow> delay th = 8 \<and> onChange (props s) = Some (callback th))"

definition lastOf :: "SplitPane \<Rightarrow> nat option" where
  "lastOf s = (case throttledOnChange s of None \<Rightarrow> None | Some th \<Rightarrow> lastExec th)"

text \<open>
  Concrete panes: with the default minimum widths, a container of 1000 pixels at
  offset 10 and one of 300 pixels, each after the press that starts a drag; the first
  after a drag to 500 and the release; and two sessions on a pane with a callback
  (\<open>draggedPane\<close> is the pane before the release of the first), in the second of
  which the parent renders the pane again with a new callback during the drag.
\<close>

definition wideDragging :: SplitPane where
  "wideDragging =
     exec (mount defaultProps)
       [(0, Resize \<lparr>size_x = 10, size_width = 1000\<rparr>), (1, MouseDownAtHandle 0)]"

definition narrowDragging :: SplitPane where
  "narrowDragging =
     exec (mount defaultProps)
       [(0, Resize \<lparr>size_x = 0, size_width = 300\<rparr>), (1, MouseDownAtHandle 0)]"

definition idleAfterDrag :: SplitPane where
  "idleAfterDrag = exec wideDragging [(2, MouseMove 500), (3, MouseUp 0)]"

definition callbackProps :: Props where
  "callbackProps = defaultProps\<lparr>onChange := Some 1\<rparr>"

definition draggedPane :: SplitPane where
  "draggedPane =
     exec (mount callbackProps)
       [(1000, Resize \<lparr>size_x = 10, size_width = 1000\<rparr>),
        (1001, MouseDownAtHandle 0),
        (1002, MouseMove 500),
        (1005, MouseMove 510),
        (1011, MouseMove 520)]"

definition steadySession :: "(nat \<times> Event) list" where
  "steadySession =
     [(1000, Resize \<lparr>size_x = 10, size_width = 1000\<rparr>),
      (1001, MouseDownAtHandle 0),
      (1002, MouseMove 500),
      (1005, MouseMove 510),
      (1011, MouseMove 520),
      (1012, MouseUp 0)]"

definition changingSession :: "(nat \<times> Event) list" where
  "changingSession =
     [(1000, Resize \<lparr>size_x = 10, size_width = 1000\<rparr>),
      (1001, MouseDownAtHandle 0),
      (1002, MouseMove 500),
      (1005, Rerender (defaultProps\<lparr>onChange := Some 2\<rparr>)),
      (1006, MouseMove 510),
      (1012, MouseUp 0)]"

section \<open>Properties of the UI store\<close>

lemma reducer_simps:
  "reducer s HideUIChrome = (if \<not> showChrome s then s else s\<lparr>showChrome := False\<rparr>)"
  "reducer s HideUISpinner = (if \<not> showSpinner s then s else s\<lparr>showSpinner := False\<rparr>)"
  "reducer s (SetMode m) = s\<lparr>mode := m\<rparr>"
  "reducer s (SetPageVisibility b) = s\<lparr>isPageHidden := b\<rparr>"
  "reducer s (SetTheme t) = s\<lparr>theme := t\<rparr>"
  "reducer s ShowUIChrome = (if showChrome s then s else s\<lparr>showChrome := True\<rparr>)"
  "reducer s ShowUISpinner = (if showSpinner s then s else s\<lparr>showSpinner := True\<rparr>)"
  by (cases s; simp add: reducer_def spread_def orElse_def emptyPartial_def)+

text \<open>
  C10. The reducer of the UI store is idempotent: applying the same action twice gives
  the state that applying it once gives. The actions that show or hide the chrome or
  the spinner return the state unchanged when the flag already has the requested value.
\<close>

theorem reducer_idempotent:
  "reducer (reducer s a) a = reducer s a
   \<and> (showChrome s \<longrightarrow> reducer s ShowUIChrome = s)
   \<and> (\<not> showChrome s \<longrightarrow> reducer s HideUIChrome = s)
   \<and> (showSpinner s \<longrightarrow> reducer s ShowUISpinner = s)
   \<and> (\<not> showSpinner s \<longrightarrow> reducer s HideUISpinner = s)"
  by (cases a; simp add: reducer_simps)

text \<open>
  On the initial state the chrome is shown and the spinner is not, so showing the
  chrome and hiding the spinner change nothing, and hiding the chrome twice is hiding
  it once. On the state with the chrome hidden and the spinner shown, hiding the chrome
  and showing the spinner change nothing.
\<close>

theorem reducer_idempotent_witness:
  "reducer (reducer (initUI (0::nat) ''theme'') HideUIChrome) HideUIChrome
     = reducer (initUI 0 ''theme'') HideUIChrome
   \<and> showChrome (reducer (initUI (0::nat) ''theme'') HideUIChrome) = False
   \<and> showChrome (initUI (0::nat) ''theme'')
   \<and> reducer (initUI (0::nat) ''theme'') ShowUIChrome = initUI 0 ''theme''
   \<and> \<not> showSpinner (initUI (0::nat) ''theme'')
   \<and> reducer (initUI (0::nat) ''theme'') HideUISpinner = initUI 0 ''theme''
   \<and> \<not> showChrome ((initUI (0::nat) ''theme'')\<lparr>showChrome := False, showSpinner := True\<rparr>)
   \<and> reducer ((initUI (0::nat) ''theme'')\<lparr>showChrome := False, showSpinner := True\<rparr>) HideUIChrome
       = (initUI 0 ''theme'')\<lparr>showChrome := False, showSpinner := True\<rparr>
   \<and> showSpinner ((initUI (0::nat) ''theme'')\<lparr>showChrome := False, showSpinner := True\<rparr>)
   \<and> reducer ((initUI (0::nat) ''theme'')\<lparr>showChrome := False, showSpinner := True\<rparr>) ShowUISpinner
       = (initUI 0 ''theme'')\<lparr>showChrome := False, showSpinner := True\<rparr>"
proof -
  have a: "showChrome (initUI (0::nat) ''theme'')" "\<not> showSpinner (initUI (0::nat) ''theme'')"
    "\<not> showChrome ((initUI (0::nat) ''theme'')\<lparr>showChrome := False, showSpinner := True\<rparr>)"
    "showSpinner ((initUI (0::nat) ''theme'')\<lparr>showChrome := False, showSpinner := True\<rparr>)"
    by (simp_all add: initUI_def)
  have b: "showChrome (reducer (initUI (0::nat) ''theme'') HideUIChrome) = False"
    by (simp add: initUI_def reducer_simps)
  show ?thesis
    using reducer_idempotent [of "initUI (0::nat) ''theme''" HideUIChrome]
      reducer_idempotent
        [of "(initUI (0::nat) ''theme'')\<lparr>showChrome := False, showSpinner := True\<rparr>" HideUIChrome]
      a b
    by blast
qed

section \<open>Properties of the theme propagation\<close>











section \<open>Properties of \<open>getInitials\<close>\<close>

text \<open>
  The pieces that \<open>split\<close> returns, on strings with white space at either end, in
  runs, and on the empty string.
\<close>

lemma split_whitespace_examples:
  "split_whitespace ''Bugs Bunny'' = [''Bugs'', ''Bunny'']"
  "split_whitespace '' a  b '' = [[], ''a'', ''b'', []]"
  "split_whitespace [] = [[]]"
  "split_whitespace ''  '' = [[], []]"
  by code_simp+










section \<open>Properties of \<open>onColumnMoved\<close>\<close>

text \<open>\<open>splice\<close> on a short array: a removal, an insertion, and a start past the end.\<close>

lemma splice_examples:
  "splice 1 1 [] [''a'', ''b'', ''c''] = ([''b''], [''a'', ''c''])"
  "splice 0 0 [''x''] [''a'', ''c''] = ([], [''x'', ''a'', ''c''])"
  "splice 5 0 [''x''] [''a'', ''c''] = ([], [''a'', ''c'', ''x''])"
  "splice 3 1 [] [''a'', ''b'', ''c''] = ([], [''a'', ''b'', ''c''])"
  "splice (- 1) 1 [] [''a'', ''b'', ''c''] = ([''c''], [''a'', ''b''])"
  by code_simp+









section \<open>Properties of the split pane\<close>

subsection \<open>The concrete panes\<close>

lemmas pane_eval =
  mount_def defaultProps_def zeroSize_def useMemo_throttledOnChange_def
  throttle_def render_def hideHandle_def handleDragStart_def handleDrag_def handleDragStop_def
  rerender_def throttle_call_def throttle_cancel_def newWidth_def Let_def

lemma wideDragging_eq:
  "wideDragging =
     \<lparr> props = defaultProps, isDragging = True, width = 400,
       size' = \<lparr>size_x = 10, size_width = 1000\<rparr>, throttledOnChange = None \<rparr>"
  by (simp add: wideDragging_def pane_eval)

lemma narrowDragging_eq:
  "narrowDragging =
     \<lparr> props = defaultProps, isDragging = True, width = 400,
       size' = \<lparr>size_x = 0, size_width = 300\<rparr>, throttledOnChange = None \<rparr>"
  by (simp add: narrowDragging_def pane_eval)

lemma idleAfterDrag_eq:
  "idleAfterDrag =
     \<lparr> props = defaultProps, isDragging = False, width = 482,
       size' = \<lparr>size_x = 10, size_width = 1000\<rparr>, throttledOnChange = None \<rparr>"
  by (simp add: idleAfterDrag_def wideDragging_eq pane_eval)

lemma draggedPane_eq:
  "draggedPane =
     \<lparr> props = callbackProps, isDragging = True, width = 502,
       size' = \<lparr>size_x = 10, size_width = 1000\<rparr>,
       throttledOnChange =
         Some \<lparr> delay = 8, callback = 1, lastExec = Some 1011 \<rparr> \<rparr>"
  by (simp add: draggedPane_def callbackProps_def pane_eval)

lemma reachable_exec: "reachable s \<Longrightarrow> reachable (exec s evs)"
proof (induction evs arbitrary: s)
  case Nil
  then show ?case by simp
next
  case (Cons ev evs)
  obtain now e where ev: "ev = (now, e)" by (cases ev)
  have "reachable (fst (step now e s))"
    using Cons.prems by (rule reachable_step)
  then show ?case
    using Cons.IH by (simp add: ev)
qed

subsection \<open>The width computed by a pointer move\<close>

lemma width_handleDrag:
  "width (fst (handleDrag now clientX s)) =
     newWidth (minimumWidths (props s)) (size' s) clientX"
  by (simp add: handleDrag_def Let_def split: option.splits prod.splits)

lemma handleDrag_frame:
  "props (fst (handleDrag now clientX s)) = props s"
  "size' (fst (handleDrag now clientX s)) = size' s"
  "isDragging (fst (handleDrag now clientX s)) = isDragging s"
  by (simp_all add: handleDrag_def Let_def split: option.splits prod.splits)

text \<open>
  C2. On a pointer move while dragging, the new width of the left pane is the
  candidate \<open>clientX - size.x - 8\<close>, first raised to the left minimum, then lowered
  to the container width minus the right minimum, then rounded to the nearest integer.
  When the left minimum does not exceed that upper bound, this is the candidate
  clamped to the interval between the two, rounded.
\<close>

theorem handleDrag_width:
  "isDragging s \<Longrightarrow>
   (let lo = left (minimumWidths (props s));
        hi = size_width (size' s) - right (minimumWidths (props s));
        candidate = clientX - size_x (size' s) - 8;
        leftWidthPx = width (fst (step now (MouseMove clientX) s))
    in leftWidthPx = real_of_int (round (min (max lo candidate) hi))
       \<and> (lo \<le> hi \<longrightarrow> leftWidthPx = real_of_int (round (clampToInterval lo hi candidate))))"
  by (simp add: width_handleDrag newWidth_def Let_def clampToInterval_def min_def max_def)

text \<open>
  A container of 1000 pixels at offset 10, minimum widths 200 and 200, the pointer at
  510.7: the candidate is 492.7, inside the interval from 200 to 800, and the width
  becomes 493.
\<close>

theorem handleDrag_width_witness:
  "isDragging wideDragging
   \<and> left (minimumWidths (props wideDragging))
       \<le> size_width (size' wideDragging) - right (minimumWidths (props wideDragging))
   \<and> clampToInterval 200 800 (5107 / 10 - 10 - 8) = 4927 / 10
   \<and> width (fst (step 2 (MouseMove (5107 / 10)) wideDragging)) = 493"
proof -
  have d: "isDragging wideDragging"
    by (simp add: wideDragging_eq)
  have c: "clampToInterval 200 800 (5107 / 10 - 10 - 8) = 4927 / 10"
    by (simp add: clampToInterval_def)
  have r: "round (4927 / 10 :: real) = 493"
    by (simp add: round_def)
  show ?thesis
    using handleDrag_width[OF d, of "5107 / 10" 2] d c r
    by (simp add: wideDragging_eq defaultProps_def Let_def)
qed

text \<open>
  C3, as amended. When the container width minus the right minimum is below the left
  minimum (a container too narrow for both minimums, or a container not measured yet),
  every pointer move of a drag sets the width of the left pane to the container width
  minus the right minimum, rounded: the upper bound wins, not the left minimum.
\<close>

theorem narrow_container_width:
  "isDragging s \<Longrightarrow>
   size_width (size' s) - right (minimumWidths (props s)) < left (minimumWidths (props s)) \<Longrightarrow>
   width (fst (step now (MouseMove clientX) s)) =
     real_of_int (round (size_width (size' s) - right (minimumWidths (props s))))"
  by (simp add: width_handleDrag newWidth_def Let_def min_def max_def)

theorem narrow_container_width_witness:
  "isDragging narrowDragging
   \<and> size_width (size' narrowDragging) - right (minimumWidths (props narrowDragging))
       < left (minimumWidths (props narrowDragging))
   \<and> width (fst (step 2 (MouseMove 250) narrowDragging)) = 100"
proof -
  have d: "isDragging narrowDragging"
    by (simp add: narrowDragging_eq)
  have n: "size_width (size' narrowDragging) - right (minimumWidths (props narrowDragging))
       < left (minimumWidths (props narrowDragging))"
    by (simp add: narrowDragging_eq defaultProps_def)
  show ?thesis
    using narrow_container_width[OF d n, of 2 250] d n
    by (simp add: narrowDragging_eq defaultProps_def)
qed

text \<open>
  The claim as stated fails on its own example: with the minimum widths 200 and 200 and
  a container of 300 pixels, a pointer move of a drag sets the width to 100, not to 200.
\<close>

theorem narrow_container_counterexample:
  "isDragging narrowDragging
   \<and> minimumWidths (props narrowDragging) = \<lparr>left = 200, right = 200\<rparr>
   \<and> size_width (size' narrowDragging) = 300
   \<and> width (fst (step 2 (MouseMove 250) narrowDragging)) = 100
   \<and> width (fst (step 2 (MouseMove 250) narrowDragging))
       \<noteq> left (minimumWidths (props narrowDragging))"
  by (simp add: narrowDragging_eq pane_eval)

subsection \<open>The invariant of the width\<close>

lemma round_bounds:
  fixes v :: real
  assumes "lo \<le> v" "v \<le> hi"
  shows "lo - 1/2 \<le> real_of_int (round v)" "real_of_int (round v) \<le> hi + 1/2"
proof -
  have "v - 1/2 \<le> real_of_int (round v)" "real_of_int (round v) \<le> v + 1/2"
    using of_int_round_ge[of v] of_int_round_le[of v] by simp_all
  then show "lo - 1/2 \<le> real_of_int (round v)" "real_of_int (round v) \<le> hi + 1/2"
    using assms by linarith+
qed

lemma round_bounds_int:
  fixes v :: real
  assumes "lo \<le> v" "v \<le> hi" "lo \<in> \<int>" "hi \<in> \<int>"
  shows "lo \<le> real_of_int (round v)" "real_of_int (round v) \<le> hi"
proof -
  from assms(3) obtain a where a: "lo = of_int a" by (auto elim: Ints_cases)
  from assms(4) obtain b where b: "hi = of_int b" by (auto elim: Ints_cases)
  have "round lo \<le> round v" "round v \<le> round hi"
    using assms(1,2) by (simp_all add: round_mono)
  then show "lo \<le> real_of_int (round v)" "real_of_int (round v) \<le> hi"
    by (simp_all add: a b)
qed

lemma drag_bounds:
  assumes drag: "isDragging s"
    and sat: "left (minimumWidths (props s)) \<le> size_width (size' s) - right (minimumWidths (props s))"
  shows "left (minimumWidths (props s)) - 1/2 \<le> width (fst (step now (MouseMove clientX) s))"
    and "width (fst (step now (MouseMove clientX) s))
           \<le> size_width (size' s) - right (minimumWidths (props s)) + 1/2"
    and "left (minimumWidths (props s)) \<in> \<int>
         \<and> size_width (size' s) - right (minimumWidths (props s)) \<in> \<int>
         \<longrightarrow> paneInvariant (fst (step now (MouseMove clientX) s))"
proof -
  define lo where "lo = left (minimumWidths (props s))"
  define hi where "hi = size_width (size' s) - right (minimumWidths (props s))"
  define v where "v = min (max lo (clientX - size_x (size' s) - 8)) hi"
  define s' where "s' = fst (handleDrag now clientX s)"
  have st: "fst (step now (MouseMove clientX) s) = s'"
    using drag by (simp add: s'_def)
  have w: "width s' = real_of_int (round v)"
    by (simp add: s'_def width_handleDrag newWidth_def v_def lo_def hi_def)
  have fr: "props s' = props s" "size' s' = size' s"
    by (simp_all add: s'_def handleDrag_frame)
  have v: "lo \<le> v" "v \<le> hi"
    using sat by (simp_all add: v_def lo_def hi_def min_def max_def)
  show "left (minimumWidths (props s)) - 1/2 \<le> width (fst (step now (MouseMove clientX) s))"
    using round_bounds(1)[OF v] by (simp only: st w lo_def)
  show "width (fst (step now (MouseMove clientX) s))
           \<le> size_width (size' s) - right (minimumWidths (props s)) + 1/2"
    using round_bounds(2)[OF v] by (simp only: st w hi_def)
  show "left (minimumWidths (props s)) \<in> \<int>
         \<and> size_width (size' s) - right (minimumWidths (props s)) \<in> \<int>
         \<longrightarrow> paneInvariant (fst (step now (MouseMove clientX) s))"
  proof -
    have "lo \<in> \<int> \<and> hi \<in> \<int> \<longrightarrow> paneInvariant s'"
      using round_bounds_int[OF v]
      by (simp add: paneInvariant_def fr w lo_def[symmetric] hi_def[symmetric])
    then show ?thesis
      unfolding st lo_def hi_def .
  qed
qed

text \<open>
  C4, as amended. The invariant is established by the pointer moves of a drag only:
  when the left minimum does not exceed the container width minus the right minimum,
  the width after a pointer move of a drag lies between these two bounds up to half a
  pixel of rounding, and between them when both are whole numbers; the invariant then
  survives every mouse event. The width at mount, the width after a change of
  \<open>initialWidth\<close> and the width after a resize of the container are not clamped.
\<close>

theorem drag_establishes_invariant:
  "(isDragging s
      \<and> left (minimumWidths (props s)) \<le> size_width (size' s) - right (minimumWidths (props s))
    \<longrightarrow> left (minimumWidths (props s)) - 1/2 \<le> width (fst (step now (MouseMove clientX) s))
        \<and> width (fst (step now (MouseMove clientX) s))
             \<le> size_width (size' s) - right (minimumWidths (props s)) + 1/2
        \<and> (left (minimumWidths (props s)) \<in> \<int>
             \<and> size_width (size' s) - right (minimumWidths (props s)) \<in> \<int>
             \<longrightarrow> paneInvariant (fst (step now (MouseMove clientX) s))))
   \<and> (paneInvariant s \<and> isMouseEvent e
        \<and> left (minimumWidths (props s)) \<in> \<int>
        \<and> size_width (size' s) - right (minimumWidths (props s)) \<in> \<int>
      \<longrightarrow> paneInvariant (fst (step now e s)))"
proof -
  have keep: "paneInvariant (fst (step now e s))"
    if inv: "paneInvariant s" and me: "isMouseEvent e"
      and ints: "left (minimumWidths (props s)) \<in> \<int>"
        "size_width (size' s) - right (minimumWidths (props s)) \<in> \<int>"
  proof (cases e)
    case (MouseDownAtHandle b)
    then show ?thesis
      using inv by (simp add: paneInvariant_def handleDragStart_def)
  next
    case (MouseMove cx)
    have sat: "left (minimumWidths (props s)) \<le> size_width (size' s) - right (minimumWidths (props s))"
      using inv by (simp add: paneInvariant_def)
    show ?thesis
    proof (cases "isDragging s")
      case True
      then show ?thesis
        using drag_bounds(3)[OF True sat, of now cx] ints by (simp add: MouseMove)
    next
      case False
      then show ?thesis using inv by (simp add: MouseMove)
    qed
  next
    case (MouseUp b)
    then show ?thesis
      using inv by (simp add: paneInvariant_def handleDragStop_def)
  next
    case (Rerender p)
    then show ?thesis using me by simp
  next
    case (Resize sz)
    then show ?thesis using me by simp
  qed
  show ?thesis
    using drag_bounds[of s now clientX] keep by blast
qed

theorem drag_establishes_invariant_witness:
  "isDragging wideDragging
   \<and> left (minimumWidths (props wideDragging))
       \<le> size_width (size' wideDragging) - right (minimumWidths (props wideDragging))
   \<and> left (minimumWidths (props wideDragging)) \<in> \<int>
   \<and> size_width (size' wideDragging) - right (minimumWidths (props wideDragging)) \<in> \<int>
   \<and> paneInvariant (fst (step 2 (MouseMove 950) wideDragging))
   \<and> width (fst (step 2 (MouseMove 950) wideDragging)) = 800
   \<and> isMouseEvent (MouseUp 0)
   \<and> paneInvariant (fst (step 3 (MouseUp 0) (fst (step 2 (MouseMove 950) wideDragging))))"
proof -
  have d: "isDragging wideDragging"
    by (simp add: wideDragging_eq)
  have sat: "left (minimumWidths (props wideDragging))
       \<le> size_width (size' wideDragging) - right (minimumWidths (props wideDragging))"
    by (simp add: wideDragging_eq defaultProps_def)
  have i1: "left (minimumWidths (props wideDragging)) \<in> \<int>"
    by (simp add: wideDragging_eq defaultProps_def)
  have "size_width (size' wideDragging) - right (minimumWidths (props wideDragging)) = 800"
    by (simp add: wideDragging_eq defaultProps_def)
  then have i2: "size_width (size' wideDragging) - right (minimumWidths (props wideDragging)) \<in> \<int>"
    by simp
  define s1 where "s1 = fst (step 2 (MouseMove 950) wideDragging)"
  have s1: "s1 = wideDragging\<lparr>width := 800\<rparr>"
    by (simp add: s1_def wideDragging_eq pane_eval)
  have inv1: "paneInvariant s1"
    using drag_establishes_invariant[of wideDragging 2 950] d sat i1 i2
    by (simp add: s1_def)
  have j1: "left (minimumWidths (props s1)) \<in> \<int>"
    "size_width (size' s1) - right (minimumWidths (props s1)) \<in> \<int>"
    using i1 i2 by (simp_all add: s1)
  have inv2: "paneInvariant (fst (step 3 (MouseUp 0) s1))"
    using drag_establishes_invariant[of s1 3 0 "MouseUp 0"] inv1 j1 by simp
  have w: "width s1 = 800"
    by (simp add: s1)
  show ?thesis
    using d sat i1 i2 inv1 inv2 w by (simp add: s1_def)
qed

text \<open>
  The claim as stated fails in a state that a resize reaches: after mounting with the
  default properties and a first measurement of 500 pixels, both panes are visible,
  the container is not empty, and the width 400 exceeds \<open>500 - 200\<close>.
\<close>

theorem resize_violates_invariant:
  "reachable (fst (step 0 (Resize \<lparr>size_x = 0, size_width = 500\<rparr>) (mount defaultProps)))
   \<and> hidePane (props (fst (step 0 (Resize \<lparr>size_x = 0, size_width = 500\<rparr>) (mount defaultProps)))) = None
   \<and> size_width (size' (fst (step 0 (Resize \<lparr>size_x = 0, size_width = 500\<rparr>) (mount defaultProps)))) \<noteq> 0
   \<and> \<not> paneInvariant (fst (step 0 (Resize \<lparr>size_x = 0, size_width = 500\<rparr>) (mount defaultProps)))"
proof -
  have "reachable (fst (step 0 (Resize \<lparr>size_x = 0, size_width = 500\<rparr>) (mount defaultProps)))"
    by (rule reachable_step) (rule reachable_mount)
  then show ?thesis
    by (simp add: mount_def defaultProps_def paneInvariant_def)
qed

subsection \<open>What changes the width\<close>

text \<open>
  C5. While \<open>isDragging\<close> is false, an event changes the width of the left pane only
  if it is a render that passes another \<open>initialWidth\<close>; and a render that passes
  another \<open>initialWidth\<close> sets the width to it, dragging or not.
\<close>

theorem width_changes_only_by_initialWidth:
  "(\<not> isDragging s \<and> width (fst (step now e s)) \<noteq> width s
      \<longrightarrow> (\<exists>p. e = Rerender p \<and> initialWidth p \<noteq> initialWidth (props s)))
   \<and> (initialWidth p \<noteq> initialWidth (props s)
      \<longrightarrow> width (fst (step now (Rerender p) s)) = initialWidth p)"
  by (cases e) (auto simp: rerender_def handleDragStart_def)

text \<open>
  After a drag that left the width at 482: a pointer move changes nothing, and a render
  with \<open>initialWidth = 300\<close> sets the width to 300, also in the middle of a drag.
\<close>

theorem width_changes_only_by_initialWidth_witness:
  "\<not> isDragging idleAfterDrag
   \<and> width idleAfterDrag = 482
   \<and> width (fst (step 5 (MouseMove 700) idleAfterDrag)) = 482
   \<and> initialWidth (defaultProps\<lparr>initialWidth := 300\<rparr>) \<noteq> initialWidth (props idleAfterDrag)
   \<and> width (fst (step 5 (Rerender (defaultProps\<lparr>initialWidth := 300\<rparr>)) idleAfterDrag))
       \<noteq> width idleAfterDrag
   \<and> width (fst (step 5 (Rerender (defaultProps\<lparr>initialWidth := 300\<rparr>)) idleAfterDrag)) = 300
   \<and> isDragging wideDragging
   \<and> width (fst (step 5 (Rerender (defaultProps\<lparr>initialWidth := 300\<rparr>)) wideDragging)) = 300"
proof -
  have a: "\<not> isDragging idleAfterDrag" "width idleAfterDrag = 482"
    "initialWidth (defaultProps\<lparr>initialWidth := 300\<rparr>) \<noteq> initialWidth (props idleAfterDrag)"
    by (simp_all add: idleAfterDrag_eq defaultProps_def)
  have b: "isDragging wideDragging"
    "initialWidth (defaultProps\<lparr>initialWidth := 300\<rparr>) \<noteq> initialWidth (props wideDragging)"
    by (simp_all add: wideDragging_eq defaultProps_def)
  have m: "width (fst (step 5 (MouseMove 700) idleAfterDrag)) = 482"
    using a by simp
  show ?thesis
    using width_changes_only_by_initialWidth
            [of idleAfterDrag 5 "Rerender (defaultProps\<lparr>initialWidth := 300\<rparr>)"
                "defaultProps\<lparr>initialWidth := 300\<rparr>"]
          width_changes_only_by_initialWidth
            [of wideDragging 5 "MouseMove 0" "defaultProps\<lparr>initialWidth := 300\<rparr>"]
          a b m
    by simp
qed

subsection \<open>The handle\<close>

text \<open>
  C7. The handle is displayed exactly when \<open>hidePane\<close> is not set. When \<open>hidePane\<close>
  is \<open>Left\<close> or \<open>Right\<close>, a press of any mouse button at the place of the handle
  changes nothing and calls nothing.
\<close>

theorem handle_visibility:
  "(handleDisplay (render s) \<noteq> DisplayNone \<longleftrightarrow> hidePane (props s) = None)
   \<and> (hidePane (props s) \<noteq> None \<longrightarrow> step now (MouseDownAtHandle button) s = (s, []))"
  by (cases "hidePane (props s)"; simp add: render_def hideHandle_def; metis Pane.exhaust)

theorem handle_visibility_witness:
  "hidePane (props (mount (defaultProps\<lparr>hidePane := Some Left\<rparr>))) \<noteq> None
   \<and> handleDisplay (render (mount (defaultProps\<lparr>hidePane := Some Left\<rparr>))) = DisplayNone
   \<and> step 7 (MouseDownAtHandle 0) (mount (defaultProps\<lparr>hidePane := Some Left\<rparr>))
       = (mount (defaultProps\<lparr>hidePane := Some Left\<rparr>), [])
   \<and> hidePane (props (mount defaultProps)) = None
   \<and> handleDisplay (render (mount defaultProps)) = DisplayInitial
   \<and> isDragging (fst (step 7 (MouseDownAtHandle 0) (mount defaultProps)))"
proof -
  have h: "hidePane (props (mount (defaultProps\<lparr>hidePane := Some Left\<rparr>))) \<noteq> None"
    "hidePane (props (mount defaultProps)) = None"
    by (simp_all add: mount_def defaultProps_def)
  have v: "handleDisplay (render (mount defaultProps)) = DisplayInitial"
    "handleDisplay (render (mount (defaultProps\<lparr>hidePane := Some Left\<rparr>))) = DisplayNone"
    by (simp_all add: pane_eval)
  have g: "isDragging (fst (step 7 (MouseDownAtHandle 0) (mount defaultProps)))"
    by (simp add: pane_eval)
  show ?thesis
    using handle_visibility[of "mount (defaultProps\<lparr>hidePane := Some Left\<rparr>)" 7 0] h v g
    by simp
qed

subsection \<open>The calls of \<open>onChange\<close>\<close>

lemma wellFormed_mount: "wellFormed (mount p)"
  by (simp add: wellFormed_def mount_def useMemo_throttledOnChange_def throttle_def
        split: option.splits)

lemma wellFormed_step: "wellFormed s \<Longrightarrow> wellFormed (fst (step now e s))"
  by (cases e)
     (auto simp: wellFormed_def handleDragStart_def handleDrag_def handleDragStop_def rerender_def
                 throttle_call_def throttle_cancel_def useMemo_throttledOnChange_def throttle_def
                 Let_def
           split: option.splits prod.splits if_splits)

lemma reachable_wellFormed: "reachable s \<Longrightarrow> wellFormed s"
  by (induction rule: reachable.induct) (simp_all add: wellFormed_mount wellFormed_step)

lemma step_onChange:
  "keepsOnChange (onChange (props s)) e \<Longrightarrow>
   onChange (props (fst (step now e s))) = onChange (props s)"
  by (cases e) (auto simp: handleDragStart_def handleDrag_frame handleDragStop_def rerender_def)

lemma step_quiet:
  assumes "keepsOnChange (onChange (props s)) e"
    and "\<not> (isMouseMove e \<and> snd (step now e s) \<noteq> [])"
  shows "lastOf (fst (step now e s)) = lastOf s"
  using assms
  by (cases e)
     (auto simp: lastOf_def handleDragStart_def handleDrag_def handleDragStop_def rerender_def
                 throttle_call_def throttle_cancel_def Let_def
           split: option.splits prod.splits if_splits)

lemma step_fire:
  assumes "wellFormed s" and "isMouseMove e" and "snd (step now e s) \<noteq> []"
  shows "lastOf (fst (step now e s)) = Some now
         \<and> (\<forall>l. lastOf s = Some l \<longrightarrow> l + 8 < now)
         \<and> length (snd (step now e s)) = 1"
  using assms
  by (cases e)
     (auto simp: lastOf_def wellFormed_def handleDrag_def throttle_call_def Let_def
           split: option.splits prod.splits if_splits)

lemma moveCallTimes_Cons:
  "moveCallTimes ((now, e, cs) # tr) =
     (if isMouseMove e then map (\<lambda>c. now) cs else []) @ moveCallTimes tr"
  by (simp add: moveCallTimes_def)

lemma run_gap:
  "wellFormed s \<Longrightarrow>
   \<forall>(now, e) \<in> set evs. keepsOnChange (onChange (props s)) e \<Longrightarrow>
   sorted_wrt (\<lambda>a b. a + 8 < b) (moveCallTimes (run s evs))
   \<and> (\<forall>l. lastOf s = Some l \<longrightarrow> (\<forall>t \<in> set (moveCallTimes (run s evs)). l + 8 < t))"
proof (induction evs arbitrary: s)
  case Nil
  then show ?case by (simp add: moveCallTimes_def)
next
  case (Cons ev evs)
  obtain now e where ev: "ev = (now, e)" by (cases ev)
  define s' where "s' = fst (step now e s)"
  define cs where "cs = snd (step now e s)"
  have st: "step now e s = (s', cs)" by (simp add: s'_def cs_def)
  have keep: "keepsOnChange (onChange (props s)) e"
    using Cons.prems(2) by (simp add: ev)
  have wf': "wellFormed s'"
    using Cons.prems(1) by (simp add: s'_def wellFormed_step)
  have oc: "onChange (props s') = onChange (props s)"
    using keep by (simp add: s'_def step_onChange)
  have rest: "\<forall>(now, e) \<in> set evs. keepsOnChange (onChange (props s')) e"
    using Cons.prems(2) by (simp add: oc)
  note IH = Cons.IH[OF wf' rest]
  have run: "moveCallTimes (run s (ev # evs)) =
      (if isMouseMove e then map (\<lambda>c. now) cs else []) @ moveCallTimes (run s' evs)"
    by (simp add: ev st moveCallTimes_Cons)
  show ?case
  proof (cases "isMouseMove e \<and> cs \<noteq> []")
    case True
    then have fire: "lastOf s' = Some now" "\<forall>l. lastOf s = Some l \<longrightarrow> l + 8 < now" "length cs = 1"
      using step_fire[OF Cons.prems(1), of e now] by (simp_all add: s'_def cs_def)
    from fire(3) obtain c where c: "cs = [c]" by (cases cs) auto
    have hd: "moveCallTimes (run s (ev # evs)) = now # moveCallTimes (run s' evs)"
      using True by (simp add: run c)
    have later: "\<forall>t \<in> set (moveCallTimes (run s' evs)). now + 8 < t"
      using IH fire(1) by simp
    show ?thesis
      using IH later fire(2) by (auto simp: hd)
  next
    case False
    then have same: "lastOf s' = lastOf s"
      using step_quiet[OF keep, of now] by (simp add: s'_def cs_def)
    have "moveCallTimes (run s (ev # evs)) = moveCallTimes (run s' evs)"
      using False by (auto simp: run)
    then show ?thesis
      using IH by (simp add: same)
  qed
qed

text \<open>
  C1, as amended. In a run of events from a reachable state in which no render passes
  another \<open>onChange\<close> callback, any two calls of \<open>onChange\<close> made by pointer moves
  are more than 8 milliseconds apart. The release of the primary button during a drag
  ends the drag, cancels the throttled callback and calls \<open>onChange\<close> exactly once,
  in the same step, with the current width of the left pane (no call when no callback
  was passed). While no drag is in progress no event calls \<open>onChange\<close>, and only a
  press on the handle starts a drag, so that call is the last of its session. A render
  that passes another callback builds a new throttled callback, whose first call is
  made at once.
\<close>

theorem drag_session_onChange:
  "reachable s \<Longrightarrow>
   \<forall>(now, e) \<in> set evs. keepsOnChange (onChange (props s)) e \<Longrightarrow>
   sorted_wrt (\<lambda>a b. a + 8 < b) (moveCallTimes (run s evs))
   \<and> (isDragging s \<longrightarrow>
        step now (MouseUp 0) s =
          (s\<lparr>isDragging := False,
              throttledOnChange := map_option throttle_cancel (throttledOnChange s)\<rparr>,
           case onChange (props s) of None \<Rightarrow> [] | Some f \<Rightarrow> [(f, width s)]))
   \<and> (\<not> isDragging s \<longrightarrow>
        snd (step now e s) = []
        \<and> (isDragging (fst (step now e s)) \<longrightarrow> (\<exists>b. e = MouseDownAtHandle b)))
   \<and> (isDragging s \<and> onChange p = Some f \<and> onChange p \<noteq> onChange (props s) \<longrightarrow>
        snd (step now' (MouseMove clientX) (fst (step now (Rerender p) s)))
          = [(f, newWidth (minimumWidths p) (size' s) clientX)])"
proof -
  assume r: "reachable s"
    and k: "\<forall>(now, e) \<in> set evs. keepsOnChange (onChange (props s)) e"
  have a: "sorted_wrt (\<lambda>a b. a + 8 < b) (moveCallTimes (run s evs))"
    using run_gap[OF reachable_wellFormed[OF r] k] by simp
  have b: "isDragging s \<longrightarrow>
        step now (MouseUp 0) s =
          (s\<lparr>isDragging := False,
              throttledOnChange := map_option throttle_cancel (throttledOnChange s)\<rparr>,
           case onChange (props s) of None \<Rightarrow> [] | Some f \<Rightarrow> [(f, width s)])"
    by (simp add: handleDragStop_def)
  have c: "\<not> isDragging s \<longrightarrow>
        snd (step now e s) = []
        \<and> (isDragging (fst (step now e s)) \<longrightarrow> (\<exists>b. e = MouseDownAtHandle b))"
    by (cases e) (auto simp: handleDragStart_def rerender_def)
  have d: "isDragging s \<and> onChange p = Some f \<and> onChange p \<noteq> onChange (props s) \<longrightarrow>
        snd (step now' (MouseMove clientX) (fst (step now (Rerender p) s)))
          = [(f, newWidth (minimumWidths p) (size' s) clientX)]"
    by (simp add: rerender_def handleDrag_def useMemo_throttledOnChange_def throttle_def
          throttle_call_def Let_def)
  show ?thesis using a b c d by blast
qed

text \<open>
  A session with one callback: moves at 1002, 1005 and 1011 call \<open>onChange\<close> at 1002
  and 1011 only; the release at 1012 calls it once with the width 502, a later
  pointer move calls nothing, and a later press on the handle starts the next drag.
  Had the parent passed another callback at 1012 instead, the move at 1013 would have
  called it at once, two milliseconds after the call at 1011.
\<close>

theorem drag_session_onChange_witness:
  "reachable (mount callbackProps)
   \<and> list_all (\<lambda>(now, e). keepsOnChange (onChange (props (mount callbackProps))) e) steadySession
   \<and> moveCallTimes (run (mount callbackProps) steadySession) = [1002, 1011]
   \<and> sorted_wrt (\<lambda>a b. a + 8 < b) (moveCallTimes (run (mount callbackProps) steadySession))
   \<and> reachable draggedPane \<and> isDragging draggedPane
   \<and> snd (step 1012 (MouseUp 0) draggedPane) = [(1, 502)]
   \<and> \<not> isDragging (fst (step 1012 (MouseUp 0) draggedPane))
   \<and> snd (step 1013 (MouseMove 700) (fst (step 1012 (MouseUp 0) draggedPane))) = []
   \<and> isDragging (fst (step 1014 (MouseDownAtHandle 0) (fst (step 1012 (MouseUp 0) draggedPane))))
   \<and> onChange (callbackProps\<lparr>onChange := Some 2\<rparr>) \<noteq> onChange (props draggedPane)
   \<and> snd (step 1013 (MouseMove 530)
          (fst (step 1012 (Rerender (callbackProps\<lparr>onChange := Some 2\<rparr>)) draggedPane)))
       = [(2, 512)]"
proof -
  have r: "reachable (mount callbackProps)"
    by (rule reachable_mount)
  have k: "\<forall>(now, e) \<in> set steadySession. keepsOnChange (onChange (props (mount callbackProps))) e"
    by (simp add: steadySession_def)
  have t: "moveCallTimes (run (mount callbackProps) steadySession) = [1002, 1011]"
    by (simp add: steadySession_def moveCallTimes_def callbackProps_def pane_eval)
  have rd: "reachable draggedPane"
    unfolding draggedPane_def using r by (rule reachable_exec)
  have d: "isDragging draggedPane"
    by (simp add: draggedPane_eq)
  have kd: "\<forall>(now, e) \<in> set []. keepsOnChange (onChange (props draggedPane)) e"
    by simp
  define s2 where "s2 = fst (step 1012 (MouseUp 0) draggedPane)"
  have up: "snd (step 1012 (MouseUp 0) draggedPane) = [(1, 502)]" "\<not> isDragging s2"
    using drag_session_onChange[OF rd kd, of 1012 "MouseMove 0"] d
    by (simp_all add: s2_def draggedPane_eq callbackProps_def defaultProps_def)
  have r2: "reachable s2"
    unfolding s2_def using rd by (rule reachable_step)
  have k2: "\<forall>(now, e) \<in> set []. keepsOnChange (onChange (props s2)) e"
    by simp
  have idle: "snd (step 1013 (MouseMove 700) s2) = []"
    using drag_session_onChange[OF r2 k2, of 1013 "MouseMove 700"] up(2) by simp
  have press: "isDragging (fst (step 1014 (MouseDownAtHandle 0) s2))"
    using up(2)
    by (simp add: s2_def draggedPane_eq callbackProps_def pane_eval)
  have k': "list_all (\<lambda>(now, e). keepsOnChange (onChange (props (mount callbackProps))) e) steadySession"
    using k by (simp only: list_all_iff)
  have g: "sorted_wrt (\<lambda>a b. a + 8 < b) (moveCallTimes (run (mount callbackProps) steadySession))"
    using drag_session_onChange[OF r k, of 0 "MouseMove 0"] by blast
  have other: "onChange (callbackProps\<lparr>onChange := Some 2\<rparr>) = Some 2"
    "onChange (callbackProps\<lparr>onChange := Some 2\<rparr>) \<noteq> onChange (props draggedPane)"
    by (simp_all add: draggedPane_eq callbackProps_def)
  have nw: "newWidth (minimumWidths (callbackProps\<lparr>onChange := Some 2\<rparr>)) (size' draggedPane) 530 = 512"
    by (simp add: draggedPane_eq callbackProps_def defaultProps_def newWidth_def)
  have fresh: "snd (step 1013 (MouseMove 530)
          (fst (step 1012 (Rerender (callbackProps\<lparr>onChange := Some 2\<rparr>)) draggedPane)))
       = [(2, 512)]"
    using drag_session_onChange[OF rd kd, of 1012 "MouseMove 0" "callbackProps\<lparr>onChange := Some 2\<rparr>"
        2 1013 530] d other
    by (simp only: nw) simp
  show ?thesis
    using r k' t g rd d up idle press other(2) fresh by (simp add: s2_def)
qed

text \<open>
  The claim as stated fails when the parent renders the pane again with a new callback
  during the drag (as a parent does that passes an inline function and stores the width
  it receives): the moves at 1002 and 1006 both call \<open>onChange\<close>, four milliseconds
  apart.
\<close>

theorem throttle_rebuilt_counterexample:
  "reachable (mount callbackProps)
   \<and> moveCallTimes (run (mount callbackProps) changingSession) = [1002, 1006]
   \<and> \<not> sorted_wrt (\<lambda>a b. a + 8 < b) (moveCallTimes (run (mount callbackProps) changingSession))"
proof -
  have t: "moveCallTimes (run (mount callbackProps) changingSession) = [1002, 1006]"
    by (simp add: changingSession_def moveCallTimes_def callbackProps_def pane_eval)
  show ?thesis
    using reachable_mount[of callbackProps] by (simp add: t)
qed

end
